theory Spec2Isabelle
  imports
    Complex_Main
    "HOL-Library.AList"
    "HOL-Library.Sublist"
    "HOL-Library.Char_ord"
    "HOL-Library.List_Lexorder"
begin

section \<open>Data model (types.ts)\<close>

text \<open>
  Identifiers and counters are JavaScript numbers; the model takes the integer ones
  (\<open>int\<close>), lengths are \<open>nat\<close>. An optional field (\<open>group_id?: number\<close>) is an
  \<open>option\<close>, \<open>None\<close> standing for \<open>undefined\<close>. Strings are lists of code units
  (\<open>string\<close>); the model is exact for code units below 256.
\<close>

datatype PermissionLevel = READ | WRITE | ADMIN

record User =
  user_id :: int
  email :: string
  is_active :: bool
  group_id :: "int option"
  group_name :: "string option"

record SchemaPermission =
  perm_group_id :: int
  perm_schema_name :: string
  permission :: PermissionLevel

record TableInfo =
  schema_name :: string
  table_name :: string
  full_name :: string
  row_count :: nat
  column_count :: nat

text \<open>
  A row is a JavaScript object: its own enumerable properties, in order, each a column
  name with a value. The values of the model are primitive ones: strings, booleans,
  \<open>null\<close>, \<open>undefined\<close> and the numbers that are safe integers (those of magnitude
  below \<open>2^53\<close>, each one a double of its own). Fractions, larger magnitudes, \<open>NaN\<close> and
  the infinities have no value in the model.
\<close>

typedef safe_integer = "{i :: int. - 9007199254740991 \<le> i \<and> i \<le> 9007199254740991}"
  morphisms integer_of safe
  by (rule exI [of _ 0]) simp

datatype jsval = JNum safe_integer | JStr string | JBool bool | JNull | JUndefined

type_synonym row = "(string \<times> jsval) list"

record QueryResult =
  data :: "row list"
  qr_row_count :: nat
  total_rows :: nat
  page :: int
  page_size :: nat
  total_pages :: nat

definition PAGE_SIZE :: nat where
  "PAGE_SIZE = 50"

text \<open>
  The two module-level collections of the mock database. \<open>MOCK_PERMISSIONS\<close> is an
  array, so a list in storage order. \<open>TABLES_DATA\<close> is an object used as a dictionary:
  an association list in insertion order of its keys (every key holds a dot, so none is
  an array index and \<open>Object.keys\<close> lists them in insertion order).
\<close>

type_synonym permissions = "SchemaPermission list"

type_synonym tables_data = "(string \<times> row list) list"

definition MOCK_PERMISSIONS :: permissions where
  "MOCK_PERMISSIONS =
    [\<lparr>perm_group_id = 1, perm_schema_name = ''public'', permission = WRITE\<rparr>,
     \<lparr>perm_group_id = 1, perm_schema_name = ''sales'', permission = WRITE\<rparr>,
     \<lparr>perm_group_id = 1, perm_schema_name = ''hr'', permission = WRITE\<rparr>,
     \<lparr>perm_group_id = 2, perm_schema_name = ''public'', permission = READ\<rparr>,
     \<lparr>perm_group_id = 2, perm_schema_name = ''sales'', permission = READ\<rparr>,
     \<lparr>perm_group_id = 3, perm_schema_name = ''public'', permission = READ\<rparr>]"

section \<open>JavaScript built-ins used by the code\<close>

text \<open>\<open>!n\<close> on an optional number: \<open>undefined\<close> and \<open>0\<close> are falsy.\<close>

definition falsy_number :: "int option \<Rightarrow> bool" where
  "falsy_number n = (case n of None \<Rightarrow> True | Some k \<Rightarrow> k = 0)"

text \<open>\<open>Array.prototype.slice(start, end)\<close>: negative indices count from the end.\<close>

definition js_slice :: "'a list \<Rightarrow> int \<Rightarrow> int \<Rightarrow> 'a list" where
  "js_slice xs start end =
     (let len = int (length xs);
          k = (if start < 0 then max (len + start) 0 else min start len);
          final = (if end < 0 then max (len + end) 0 else min end len)
      in take (nat (final - k)) (drop (nat k) xs))"

text \<open>\<open>String.prototype.startsWith\<close> and \<open>String.prototype.includes\<close>.\<close>

definition startsWith :: "string \<Rightarrow> string \<Rightarrow> bool" where
  "startsWith s p = prefix p s"

fun string_includes :: "string \<Rightarrow> string \<Rightarrow> bool" where
  "string_includes [] p = (p = [])"
| "string_includes (c # cs) p = (prefix p (c # cs) \<or> string_includes cs p)"

text \<open>
  \<open>String.prototype.split\<close> with a one-character separator: the pieces between the
  separators; a string without the separator is one piece.
\<close>

fun split_on :: "char \<Rightarrow> string \<Rightarrow> string list" where
  "split_on sep [] = [[]]"
| "split_on sep (c # cs) =
     (if c = sep then [] # split_on sep cs
      else (case split_on sep cs of
              [] \<Rightarrow> [[c]]
            | piece # pieces \<Rightarrow> (c # piece) # pieces))"

text \<open>Reading an array at an index: \<open>undefined\<close> (\<open>None\<close>) out of range.\<close>

definition js_index :: "'a list \<Rightarrow> nat \<Rightarrow> 'a option" where
  "js_index xs i = (if i < length xs then Some (xs ! i) else None)"

text \<open>
  \<open>toLowerCase\<close> on one code unit: the ASCII capitals and the Latin-1 capitals
  (192 to 222 without the multiplication sign 215) move up by 32.
\<close>

definition toLowerCase_char :: "char \<Rightarrow> char" where
  "toLowerCase_char c =
     (let n = (of_char c :: nat)
      in if (65 \<le> n \<and> n \<le> 90) \<or> (192 \<le> n \<and> n \<le> 222 \<and> n \<noteq> 215)
         then char_of (n + 32) else c)"

definition toLowerCase :: "string \<Rightarrow> string" where
  "toLowerCase s = map toLowerCase_char s"

text \<open>
  \<open>String(val)\<close> on a primitive value. A safe integer prints as its decimal digits,
  with a minus sign when negative (the exponent notation starts at \<open>10^21\<close> and rounded
  digits at \<open>2^53\<close>, both outside the safe integers).
\<close>

definition digit :: "nat \<Rightarrow> char" where
  "digit d = char_of (48 + d)"

fun decimal :: "nat \<Rightarrow> string" where
  "decimal n = (if n < 10 then [digit n] else decimal (n div 10) @ [digit (n mod 10)])"

declare decimal.simps [simp del]

definition Number_toString :: "safe_integer \<Rightarrow> string" where
  "Number_toString n =
     (let i = integer_of n
      in if i < 0 then CHR ''-'' # decimal (nat (- i)) else decimal (nat i))"

fun String :: "jsval \<Rightarrow> string" where
  "String (JNum n) = Number_toString n"
| "String (JStr s) = s"
| "String (JBool b) = (if b then ''true'' else ''false'')"
| "String JNull = ''null''"
| "String JUndefined = ''undefined''"

text \<open>\<open>Object.keys\<close> and \<open>Object.values\<close> of a row.\<close>

definition Object_keys :: "('k \<times> 'v) list \<Rightarrow> 'k list" where
  "Object_keys obj = map fst obj"

definition Object_values :: "('k \<times> 'v) list \<Rightarrow> 'v list" where
  "Object_values obj = map snd obj"

text \<open>
  \<open>Array.from(new Set(xs))\<close>: the elements of \<open>xs\<close> in order of first occurrence.
\<close>

fun set_from :: "'a list \<Rightarrow> 'a list \<Rightarrow> 'a list" where
  "set_from seen [] = seen"
| "set_from seen (x # xs) = (if x \<in> set seen then set_from seen xs else set_from (seen @ [x]) xs)"

definition Array_from_Set :: "'a list \<Rightarrow> 'a list" where
  "Array_from_Set xs = set_from [] xs"

section \<open>The mock database (services/mockDb.ts)\<close>

text \<open>
  \<open>getAccessibleSchemas\<close>: nothing for a falsy \<open>group_id\<close>; otherwise the schema names
  of the group's records, through a \<open>Set\<close>, sorted by \<open>Array.prototype.sort\<close> (the
  default order: strings by code units).
\<close>

definition getAccessibleSchemas :: "permissions \<Rightarrow> User \<Rightarrow> string list" where
  "getAccessibleSchemas perms_store user =
     (if falsy_number (group_id user) then []
      else
        (let perms = filter (\<lambda>p. Some (perm_group_id p) = group_id user) perms_store;
             schemas = Array_from_Set (map perm_schema_name perms)
         in sort schemas))"

text \<open>
  \<open>getTables\<close>: the keys that start with the schema name and a dot, each replaced by
  the second piece of its split at the dots.
\<close>

definition getTables :: "tables_data \<Rightarrow> string \<Rightarrow> string option list" where
  "getTables tables schemaName =
     map (\<lambda>key. js_index (split_on CHR ''.'' key) 1)
       (filter (\<lambda>key. startsWith key (schemaName @ ''.'')) (Object_keys tables))"

text \<open>\<open>TABLES_DATA[fullKey] || []\<close>.\<close>

definition table_rows :: "tables_data \<Rightarrow> string \<Rightarrow> row list" where
  "table_rows tables fullKey = (case map_of tables fullKey of None \<Rightarrow> [] | Some rows \<Rightarrow> rows)"

definition getTableInfo :: "tables_data \<Rightarrow> string \<Rightarrow> string \<Rightarrow> TableInfo" where
  "getTableInfo tables schemaName tableName =
     (let fullKey = schemaName @ ''.'' @ tableName;
          rows = table_rows tables fullKey
      in \<lparr>schema_name = schemaName,
          table_name = tableName,
          full_name = fullKey,
          row_count = length rows,
          column_count = (if length rows > 0 then length (Object_keys (rows ! 0)) else 0)\<rparr>)"

text \<open>
  \<open>getData\<close>: an absent or empty \<open>whereClause\<close> is falsy and filters nothing; the
  page is cut out of the filtered rows with \<open>slice\<close>. The filter runs inside a
  \<open>try\<close>; on rows of primitive values nothing in it throws, so the \<open>catch\<close> branch
  has no counterpart here.
\<close>

definition row_matches :: "string \<Rightarrow> row \<Rightarrow> bool" where
  "row_matches lowerClause r =
     list_ex (\<lambda>val. string_includes (toLowerCase (String val)) lowerClause) (Object_values r)"

definition filter_rows :: "string option \<Rightarrow> row list \<Rightarrow> row list" where
  "filter_rows whereClause rows =
     (case whereClause of
        None \<Rightarrow> rows
      | Some clause \<Rightarrow>
          if clause = [] then rows
          else filter (row_matches (toLowerCase clause)) rows)"

definition getData :: "tables_data \<Rightarrow> string \<Rightarrow> string \<Rightarrow> int \<Rightarrow> string option \<Rightarrow> QueryResult" where
  "getData tables schemaName tableName pg whereClause =
     (let fullKey = schemaName @ ''.'' @ tableName;
          rows = filter_rows whereClause (table_rows tables fullKey);
          total = length rows;
          pages = nat \<lceil>real total / real PAGE_SIZE\<rceil>;
          start = (pg - 1) * int PAGE_SIZE;
          end = start + int PAGE_SIZE;
          slicedData = js_slice rows start end
      in \<lparr>data = slicedData,
          qr_row_count = length slicedData,
          total_rows = total,
          page = pg,
          page_size = PAGE_SIZE,
          total_pages = pages\<rparr>)"

text \<open>
  \<open>updateData\<close>: assigns the key and returns \<open>true\<close>; the model returns the result
  with the new dictionary. An existing key keeps its place, a new key goes last.
\<close>

definition updateData :: "tables_data \<Rightarrow> string \<Rightarrow> string \<Rightarrow> row list \<Rightarrow> bool \<times> tables_data" where
  "updateData tables schemaName tableName newData =
     (let fullKey = schemaName @ ''.'' @ tableName
      in (True, AList.update fullKey newData tables))"

definition hasWritePermission :: "permissions \<Rightarrow> User \<Rightarrow> string \<Rightarrow> bool" where
  "hasWritePermission perms_store user schemaName =
     (if falsy_number (group_id user) then False
      else
        (case find (\<lambda>p. Some (perm_group_id p) = group_id user \<and> perm_schema_name p = schemaName)
                perms_store of
           None \<Rightarrow> False
         | Some perm \<Rightarrow> permission perm = WRITE \<or> permission perm = ADMIN))"

section \<open>The filter validator (utils.ts)\<close>

definition FORBIDDEN_SQL_KEYWORDS :: "string list" where
  "FORBIDDEN_SQL_KEYWORDS =
     [''DELETE'', ''UPDATE'', ''INSERT'', ''DROP'',
      ''ALTER'', ''EXEC'', ''EXECUTE'', ''CREATE'', ''TRUNCATE'']"

definition SQL_COMMENT_PATTERNS :: "string list" where
  "SQL_COMMENT_PATTERNS = ['';'', ''--'', ''/*'']"

text \<open>
  The regular expressions of the validator are \<open>\b\<close>, the letters of a keyword, \<open>\b\<close>,
  with the flag \<open>i\<close> and without the flag \<open>u\<close>. The model follows the matcher of the
  language definition for these two kinds of term. A word character is a letter of the
  basic alphabet, a digit or the underscore. \<open>Canonicalize\<close> maps a code unit to its
  upper case when that is one code unit (y with diaeresis goes to 376, the micro sign to
  924, the sharp s stays), and a code unit from 128 on never goes below 128.
\<close>

datatype re_term = WordBoundary | Literal char

definition word_character :: "char \<Rightarrow> bool" where
  "word_character c =
     (let n = (of_char c :: nat)
      in (97 \<le> n \<and> n \<le> 122) \<or> (65 \<le> n \<and> n \<le> 90) \<or> (48 \<le> n \<and> n \<le> 57) \<or> n = 95)"

definition IsWordChar :: "string \<Rightarrow> int \<Rightarrow> bool" where
  "IsWordChar input e =
     (if e = - 1 \<or> e = int (length input) then False
      else word_character (input ! nat e))"

definition Canonicalize :: "char \<Rightarrow> nat" where
  "Canonicalize ch =
     (let n = (of_char ch :: nat)
      in if (97 \<le> n \<and> n \<le> 122) \<or> (224 \<le> n \<and> n \<le> 254 \<and> n \<noteq> 247) then n - 32
         else if n = 255 then 376
         else if n = 181 then 924
         else n)"

fun match_terms :: "re_term list \<Rightarrow> string \<Rightarrow> nat \<Rightarrow> bool" where
  "match_terms [] input e = True"
| "match_terms (WordBoundary # ts) input e =
     (IsWordChar input (int e - 1) \<noteq> IsWordChar input (int e) \<and> match_terms ts input e)"
| "match_terms (Literal ch # ts) input e =
     (e < length input \<and> Canonicalize (input ! e) = Canonicalize ch
      \<and> match_terms ts input (Suc e))"

text \<open>\<open>RegExp.prototype.test\<close> without the flag \<open>g\<close>: a match from some index on.\<close>

definition RegExp_test :: "re_term list \<Rightarrow> string \<Rightarrow> bool" where
  "RegExp_test pattern input = list_ex (match_terms pattern input) [0..<Suc (length input)]"

definition keyword_RegExp :: "string \<Rightarrow> re_term list" where
  "keyword_RegExp keyword = WordBoundary # map Literal keyword @ [WordBoundary]"

record Validation =
  isValid :: bool
  error :: "string option"

text \<open>
  \<open>validateWhereClause\<close>: the empty clause is valid; the comment patterns are tried
  in order, then the keywords in order. The source also computes \<open>upperClause\<close> and
  never reads it.
\<close>

definition validateWhereClause :: "string \<Rightarrow> Validation" where
  "validateWhereClause clause =
     (if clause = [] then \<lparr>isValid = True, error = None\<rparr>
      else
        (case find (\<lambda>pattern. string_includes clause pattern) SQL_COMMENT_PATTERNS of
           Some pattern \<Rightarrow>
             \<lparr>isValid = False,
              error = Some (''SQL Injection attempt detected: comment pattern ''
                            @ [CHR 0x27] @ pattern @ [CHR 0x27])\<rparr>
         | None \<Rightarrow>
             (case find (\<lambda>keyword. RegExp_test (keyword_RegExp keyword) clause)
                     FORBIDDEN_SQL_KEYWORDS of
                Some keyword \<Rightarrow> \<lparr>isValid = False, error = Some ''Forbidden SQL keyword detected.''\<rparr>
              | None \<Rightarrow> \<lparr>isValid = True, error = None\<rparr>)))"

section \<open>The operations as the specification words them\<close>

text \<open>
  \<open>PermissionFor\<close>: the level of the first record, in storage order, for the group and
  the schema. \<open>CanWrite\<close>: the user has a group and that level is WRITE or ADMIN.
\<close>

fun PermissionFor :: "permissions \<Rightarrow> int \<Rightarrow> string \<Rightarrow> PermissionLevel option" where
  "PermissionFor [] g s = None"
| "PermissionFor (p # ps) g s =
     (if perm_group_id p = g \<and> perm_schema_name p = s then Some (permission p)
      else PermissionFor ps g s)"

definition CanWrite :: "permissions \<Rightarrow> User \<Rightarrow> string \<Rightarrow> bool" where
  "CanWrite perms_store user s =
     (case group_id user of
        None \<Rightarrow> False
      | Some g \<Rightarrow> PermissionFor perms_store g s = Some WRITE \<or> PermissionFor perms_store g s = Some ADMIN)"

text \<open>
  \<open>AccessibleSchemas\<close>: empty without a group; otherwise the distinct schema names of
  the group's records, sorted.
\<close>

definition AccessibleSchemas :: "permissions \<Rightarrow> User \<Rightarrow> string list" where
  "AccessibleSchemas perms_store user =
     (case group_id user of
        None \<Rightarrow> []
      | Some g \<Rightarrow>
          sort (remdups (map perm_schema_name (filter (\<lambda>p. perm_group_id p = g) perms_store))))"

text \<open>\<open>TablesIn\<close>: the keys with the prefix \<open>schema + "."\<close>, the prefix stripped.\<close>

definition TablesIn :: "tables_data \<Rightarrow> string \<Rightarrow> string list" where
  "TablesIn tables s =
     map (drop (length (s @ ''.''))) (filter (prefix (s @ ''.'')) (map fst tables))"

text \<open>
  A keyword as a whole word, ignoring case: the text is a part before, a part equal to
  the keyword up to the case of its letters, and a part after, where the part before is
  empty or ends in a character that is not a word character, and the part after is empty
  or starts with one.
\<close>

definition upper_case :: "char \<Rightarrow> char" where
  "upper_case c =
     (let n = (of_char c :: nat) in if 97 \<le> n \<and> n \<le> 122 then char_of (n - 32) else c)"

definition whole_word :: "string \<Rightarrow> string \<Rightarrow> bool" where
  "whole_word keyword s =
     (\<exists>before mid after.
        s = before @ mid @ after \<and> map upper_case mid = keyword
        \<and> (before = [] \<or> \<not> word_character (last before))
        \<and> (after = [] \<or> \<not> word_character (hd after)))"

text \<open>
  A value converted to text: a string is its own text, a boolean is \<open>true\<close> or
  \<open>false\<close>, \<open>null\<close> and \<open>undefined\<close> are their names, and a number is its decimal
  numeral: digits, without a leading zero, whose value is the number, after a minus sign
  when the number is negative.
\<close>

definition digit_value :: "char \<Rightarrow> nat" where
  "digit_value c = of_char c - 48"

definition decimal_digit :: "char \<Rightarrow> bool" where
  "decimal_digit c = (c \<in> set ''0123456789'')"

definition numeral_value :: "string \<Rightarrow> nat" where
  "numeral_value t = foldl (\<lambda>v c. 10 * v + digit_value c) 0 t"

definition decimal_numeral :: "nat \<Rightarrow> string \<Rightarrow> bool" where
  "decimal_numeral n t =
     (t \<noteq> [] \<and> list_all decimal_digit t \<and> (hd t = CHR ''0'' \<longrightarrow> t = ''0'')
      \<and> numeral_value t = n)"

fun text_of :: "jsval \<Rightarrow> string \<Rightarrow> bool" where
  "text_of (JNum n) t =
     (if integer_of n < 0 then \<exists>u. t = CHR ''-'' # u \<and> decimal_numeral (nat (- integer_of n)) u
      else decimal_numeral (nat (integer_of n)) t)"
| "text_of (JStr s) t = (t = s)"
| "text_of (JBool b) t = (if b then t = ''true'' else t = ''false'')"
| "text_of JNull t = (t = ''null'')"
| "text_of JUndefined t = (t = ''undefined'')"

text \<open>
  Lower-casing: a capital letter becomes the small letter at the same place of the
  alphabet (the 26 basic letters, and the capitals of Latin-1 with their small letters
  32 places on); every other character stays.
\<close>

definition capitals :: string where
  "capitals = ''ABCDEFGHIJKLMNOPQRSTUVWXYZ'' @ map char_of ([192..<215] @ [216..<223])"

definition smalls :: string where
  "smalls = ''abcdefghijklmnopqrstuvwxyz'' @ map char_of ([224..<247] @ [248..<255])"

definition lower_case :: "char \<Rightarrow> char" where
  "lower_case c = (case map_of (zip capitals smalls) c of None \<Rightarrow> c | Some l \<Rightarrow> l)"

text \<open>
  The row filter: a row is kept when one of its field values, converted to text and
  lower-cased, contains the lower-cased filter text as a substring.
\<close>

definition keeps_row :: "string \<Rightarrow> row \<Rightarrow> bool" where
  "keeps_row clause r =
     (\<exists>(name, val) \<in> set r. \<exists>t before after.
        text_of val t \<and> map lower_case t = before @ map lower_case clause @ after)"

text \<open>The capital letters of the basic alphabet, of which the keywords are made.\<close>

definition capital :: "char \<Rightarrow> bool" where
  "capital c = (65 \<le> (of_char c :: nat) \<and> (of_char c :: nat) \<le> 90)"

section \<open>Concrete inputs\<close>

definition admin_user :: User where
  "admin_user = \<lparr>user_id = 1, email = ''admin@example.com'', is_active = True,
                 group_id = Some 1, group_name = Some ''Admins''\<rparr>"

definition analyst_user :: User where
  "analyst_user = \<lparr>user_id = 2, email = ''analyst@example.com'', is_active = True,
                   group_id = Some 2, group_name = Some ''Analysts''\<rparr>"

definition zero_group_user :: User where
  "zero_group_user = \<lparr>user_id = 4, email = ''zero@example.com'', is_active = True,
                      group_id = Some 0, group_name = None\<rparr>"

definition zero_group_permissions :: permissions where
  "zero_group_permissions =
     [\<lparr>perm_group_id = 0, perm_schema_name = ''public'', permission = WRITE\<rparr>]"

definition hr_employees :: "row list" where
  "hr_employees =
     [[(''id'', JNum (safe 1)), (''name'', JStr ''John Doe''), (''role'', JStr ''Manager''),
       (''salary'', JNum (safe 80000))],
      [(''id'', JNum (safe 2)), (''name'', JStr ''Jane Smith''), (''role'', JStr ''Developer''),
       (''salary'', JNum (safe 75000))],
      [(''id'', JNum (safe 3)), (''name'', JStr ''Bob Johnson''), (''role'', JStr ''Designer''),
       (''salary'', JNum (safe 70000))]]"

definition small_tables :: tables_data where
  "small_tables = [(''sales.orders'', []), (''hr.employees'', hr_employees)]"

definition mixed_rows :: "row list" where
  "mixed_rows =
     [[(''id'', JNum (safe 1)), (''note'', JStr ''Alpha''), (''active'', JBool True)],
      [(''id'', JNum (safe (- 1205))), (''note'', JNull), (''active'', JBool False)],
      [(''id'', JNum (safe 75000)), (''note'', JUndefined), (''active'', JBool False)]]"

definition mixed_tables :: tables_data where
  "mixed_tables = [(''public.mixed'', mixed_rows)]"

definition audit_tables :: tables_data where
  "audit_tables =
     [(''public.users_audit'', map (\<lambda>i. [(''id'', JNum (safe (int i + 1)))]) [0..<120])]"

section \<open>Properties\<close>

subsection \<open>Write permission\<close>

lemma find_PermissionFor:
  "map_option permission (find (\<lambda>p. perm_group_id p = g \<and> perm_schema_name p = s) ps)
     = PermissionFor ps g s"
  by (induction ps) auto

text \<open>
  Claim C2, as the specification words it, says that \<open>hasWritePermission\<close> is
  \<open>CanWrite\<close>: true exactly when the user has a group and the first record for the
  group and the schema is WRITE or ADMIN. The code tests \<open>!user.group_id\<close>, so a user
  whose group is number 0 is refused although the first record of group 0 for the
  schema is WRITE.
\<close>

theorem hasWritePermission_group_zero_counterexample:
  "CanWrite zero_group_permissions zero_group_user ''public''
   \<and> \<not> hasWritePermission zero_group_permissions zero_group_user ''public''"
  by (simp add: CanWrite_def hasWritePermission_def zero_group_permissions_def
      zero_group_user_def falsy_number_def)

text \<open>
  Claim C2, amended: \<open>hasWritePermission\<close> is true exactly when the user's
  \<open>group_id\<close> is present and not 0 and the first permission record in storage order
  for that group and the schema has level WRITE or ADMIN. So it is false without a
  \<open>group_id\<close>, for the \<open>group_id\<close> 0, without a matching record, and when the first
  matching record is READ.
\<close>

theorem hasWritePermission_first_match:
  "hasWritePermission perms_store user s \<longleftrightarrow>
     (\<exists>g. group_id user = Some g \<and> g \<noteq> 0
          \<and> (PermissionFor perms_store g s = Some WRITE
               \<or> PermissionFor perms_store g s = Some ADMIN))"
proof (cases "group_id user")
  case None
  then show ?thesis
    by (simp add: hasWritePermission_def falsy_number_def)
next
  case (Some g)
  have "PermissionFor perms_store g s
          = map_option permission
              (find (\<lambda>p. perm_group_id p = g \<and> perm_schema_name p = s) perms_store)"
    by (simp add: find_PermissionFor)
  with Some show ?thesis
    by (auto simp: hasWritePermission_def falsy_number_def split: option.splits)
qed

theorem hasWritePermission_first_match_witness:
  "hasWritePermission MOCK_PERMISSIONS admin_user ''sales''
   \<and> \<not> hasWritePermission MOCK_PERMISSIONS analyst_user ''sales''
   \<and> \<not> hasWritePermission MOCK_PERMISSIONS analyst_user ''hr''"
  using hasWritePermission_first_match [of MOCK_PERMISSIONS admin_user "''sales''"]
    hasWritePermission_first_match [of MOCK_PERMISSIONS analyst_user "''sales''"]
    hasWritePermission_first_match [of MOCK_PERMISSIONS analyst_user "''hr''"]
  by (simp add: MOCK_PERMISSIONS_def admin_user_def analyst_user_def)

text \<open>
  Claim C10: for a user whose \<open>group_id\<close> is 0, \<open>getAccessibleSchemas\<close> returns the
  empty sequence and \<open>hasWritePermission\<close> returns false, whatever the permission
  records are, those of group 0 included.
\<close>

theorem group_zero_is_no_group:
  "group_id user = Some 0 \<Longrightarrow>
     getAccessibleSchemas perms_store user = [] \<and> \<not> hasWritePermission perms_store user s"
  by (simp add: getAccessibleSchemas_def hasWritePermission_def falsy_number_def)

theorem group_zero_is_no_group_witness:
  "group_id zero_group_user = Some 0
   \<and> map perm_group_id zero_group_permissions = [0]
   \<and> getAccessibleSchemas zero_group_permissions zero_group_user = []
   \<and> \<not> hasWritePermission zero_group_permissions zero_group_user ''public''"
  using group_zero_is_no_group [of zero_group_user zero_group_permissions "''public''"]
  by (simp add: zero_group_user_def zero_group_permissions_def)

subsection \<open>Replacing a table\<close>

lemma table_rows_update:
  "table_rows (AList.update k v tables) k' = (if k' = k then v else table_rows tables k')"
  by (simp add: table_rows_def update_conv')

lemma js_slice_nat:
  "js_slice xs (int m) (int m + int n) = take n (drop m xs)"
proof -
  have k: "min (int m) (int (length xs)) = int (min m (length xs))"
    and f: "min (int m + int n) (int (length xs)) = int (min (m + n) (length xs))"
    by simp_all
  have "js_slice xs (int m) (int m + int n)
          = take (min (m + n) (length xs) - min m (length xs)) (drop (min m (length xs)) xs)"
    unfolding js_slice_def Let_def k f
    by (simp add: nat_diff_distrib' del: of_nat_min)
  also have "\<dots> = take n (drop m xs)"
  proof (cases "m \<le> length xs")
    case True
    then show ?thesis
      by (cases "m + n \<le> length xs") (simp_all add: min_def)
  next
    case False
    then show ?thesis by simp
  qed
  finally show ?thesis .
qed

lemma js_slice_page:
  assumes "0 \<le> start"
  shows "js_slice xs start (start + int n) = take n (drop (nat start) xs)"
  using js_slice_nat [of xs "nat start" n] assms by simp

text \<open>
  Claim C1, as stated, says that \<open>updateData\<close> succeeds only for a user who may write
  and leaves the table alone otherwise. \<open>updateData\<close> takes no user: the group of the
  analyst has READ on \<open>sales\<close> and \<open>hasWritePermission\<close> is false, and still the call
  on \<open>sales.orders\<close> returns \<open>true\<close> and the stored rows change.
\<close>

theorem updateData_ignores_permission_counterexample:
  "PermissionFor MOCK_PERMISSIONS 2 ''sales'' = Some READ
   \<and> group_id analyst_user = Some 2
   \<and> \<not> hasWritePermission MOCK_PERMISSIONS analyst_user ''sales''
   \<and> table_rows small_tables ''sales.orders'' = []
   \<and> fst (updateData small_tables ''sales'' ''orders'' hr_employees) = True
   \<and> table_rows (snd (updateData small_tables ''sales'' ''orders'' hr_employees)) ''sales.orders''
       = hr_employees
   \<and> hr_employees \<noteq> []"
  by (simp add: MOCK_PERMISSIONS_def analyst_user_def hasWritePermission_def falsy_number_def
      small_tables_def updateData_def table_rows_def hr_employees_def)

text \<open>
  Claim C1, amended: \<open>updateData\<close> takes no user and checks no permission; for every
  schema, table and row sequence it returns \<open>true\<close>, the stored row sequence of the
  table becomes the given one and every other table keeps its rows. The permission to
  write is the separate predicate \<open>hasWritePermission\<close>, which is false for a user
  whose group has READ as its first record on the schema.
\<close>

theorem updateData_unchecked:
  "fst (updateData tables s t rows) = True
   \<and> table_rows (snd (updateData tables s t rows)) (s @ ''.'' @ t) = rows
   \<and> (\<forall>k. k \<noteq> s @ ''.'' @ t \<longrightarrow>
         table_rows (snd (updateData tables s t rows)) k = table_rows tables k)
   \<and> (group_id user = Some g \<and> PermissionFor perms_store g s = Some READ \<longrightarrow>
         \<not> hasWritePermission perms_store user s)"
proof -
  have "\<not> hasWritePermission perms_store user s"
    if "group_id user = Some g" "PermissionFor perms_store g s = Some READ"
    using that find_PermissionFor [of g s perms_store]
    by (auto simp: hasWritePermission_def split: option.splits)
  then show ?thesis
    by (simp add: updateData_def table_rows_update)
qed

theorem updateData_unchecked_witness:
  "fst (updateData small_tables ''sales'' ''orders'' hr_employees) = True
   \<and> table_rows (snd (updateData small_tables ''sales'' ''orders'' hr_employees)) ''sales.orders''
       = hr_employees
   \<and> table_rows (snd (updateData small_tables ''sales'' ''orders'' hr_employees)) ''hr.employees''
       = table_rows small_tables ''hr.employees''
   \<and> \<not> hasWritePermission MOCK_PERMISSIONS analyst_user ''sales''"
  using updateData_unchecked [of small_tables "''sales''" "''orders''" hr_employees
      analyst_user 2 MOCK_PERMISSIONS]
  by (simp add: MOCK_PERMISSIONS_def analyst_user_def)

text \<open>
  Claim C6: after \<open>updateData\<close> with \<open>rows\<close>, \<open>getData\<close> on the same schema and table
  with page 1 and no filter (absent or empty) returns the first 50 elements of \<open>rows\<close>
  and \<open>total_rows = length rows\<close>.
\<close>

theorem replace_then_query:
  "w = None \<or> w = Some [] \<Longrightarrow>
     data (getData (snd (updateData tables s t rows)) s t 1 w) = take 50 rows
     \<and> total_rows (getData (snd (updateData tables s t rows)) s t 1 w) = length rows"
  using js_slice_page [of 0 rows 50]
  by (auto simp: getData_def updateData_def Let_def table_rows_update filter_rows_def
      PAGE_SIZE_def)

theorem replace_then_query_witness:
  "data (getData (snd (updateData small_tables ''sales'' ''orders'' hr_employees))
          ''sales'' ''orders'' 1 None) = hr_employees
   \<and> total_rows (getData (snd (updateData small_tables ''sales'' ''orders'' hr_employees))
          ''sales'' ''orders'' 1 None) = 3"
  using replace_then_query [of None small_tables "''sales''" "''orders''" hr_employees]
  by (simp add: hr_employees_def)

subsection \<open>Table metadata\<close>

text \<open>
  Claim C9: \<open>getTableInfo\<close> has no failing path and returns a \<open>TableInfo\<close> for every
  schema and table name: zero counts for a key absent from the dictionary; for a stored
  key, the length of the stored row sequence and the number of fields of its first row
  (0 for an empty table).
\<close>

theorem getTableInfo_counts:
  "(map_of tables (s @ ''.'' @ t) = None \<longrightarrow>
      row_count (getTableInfo tables s t) = 0 \<and> column_count (getTableInfo tables s t) = 0)
   \<and> (\<forall>rows. map_of tables (s @ ''.'' @ t) = Some rows \<longrightarrow>
        row_count (getTableInfo tables s t) = length rows
        \<and> column_count (getTableInfo tables s t) = (case rows of [] \<Rightarrow> 0 | r # _ \<Rightarrow> length r))
   \<and> schema_name (getTableInfo tables s t) = s
   \<and> table_name (getTableInfo tables s t) = t
   \<and> full_name (getTableInfo tables s t) = s @ ''.'' @ t"
  by (auto simp: getTableInfo_def table_rows_def Let_def Object_keys_def split: list.splits)

theorem getTableInfo_counts_witness:
  "map_of small_tables ''public.missing'' = None
   \<and> row_count (getTableInfo small_tables ''public'' ''missing'') = 0
   \<and> column_count (getTableInfo small_tables ''public'' ''missing'') = 0
   \<and> row_count (getTableInfo small_tables ''hr'' ''employees'') = 3
   \<and> column_count (getTableInfo small_tables ''hr'' ''employees'') = 4
   \<and> column_count (getTableInfo small_tables ''sales'' ''orders'') = 0"
  using getTableInfo_counts [of small_tables "''public''" "''missing''"]
    getTableInfo_counts [of small_tables "''hr''" "''employees''"]
    getTableInfo_counts [of small_tables "''sales''" "''orders''"]
  by (simp add: small_tables_def hr_employees_def)

subsection \<open>Pagination\<close>

lemma ceil_pages: "nat \<lceil>real n / real PAGE_SIZE\<rceil> = (n + 49) div 50"
proof -
  have "\<lceil>real n / real PAGE_SIZE\<rceil> = \<lceil>real_of_int (int n) / real_of_int 50\<rceil>"
    by (simp add: PAGE_SIZE_def)
  also have "\<dots> = - (- int n div 50)"
    by (rule ceiling_divide_eq_div)
  also have "\<dots> = (int n + 49) div 50"
    by linarith
  finally show ?thesis
    by (simp add: nat_div_distrib nat_add_distrib)
qed

lemma least_pages: "(LEAST k. n \<le> 50 * k) = (n + 49) div (50::nat)"
proof (rule Least_equality)
  show "n \<le> 50 * ((n + 49) div 50)" by linarith
next
  fix k assume "n \<le> 50 * k"
  then show "(n + 49) div 50 \<le> k" by linarith
qed

lemma getData_fields:
  "total_rows (getData tables s t pg w) = length (filter_rows w (table_rows tables (s @ ''.'' @ t)))"
  "total_pages (getData tables s t pg w)
     = nat \<lceil>real (length (filter_rows w (table_rows tables (s @ ''.'' @ t)))) / real PAGE_SIZE\<rceil>"
  "data (getData tables s t pg w)
     = js_slice (filter_rows w (table_rows tables (s @ ''.'' @ t))) ((pg - 1) * 50) ((pg - 1) * 50 + 50)"
  "qr_row_count (getData tables s t pg w) = length (data (getData tables s t pg w))"
  "page (getData tables s t pg w) = pg"
  "page_size (getData tables s t pg w) = 50"
  by (simp_all add: getData_def Let_def PAGE_SIZE_def)

lemma take_drop_indices:
  "take n (drop m xs) = map ((!) xs) [m ..< min (m + n) (length xs)]"
proof (rule nth_equalityI)
  show "length (take n (drop m xs)) = length (map ((!) xs) [m ..< min (m + n) (length xs)])"
    by (auto simp: min_def)
next
  fix i assume "i < length (take n (drop m xs))"
  then have i: "i < n" "m + i < length xs"
    by auto
  define k where "k = min (m + n) (length xs)"
  have mk: "m + i < k"
    using i by (simp add: k_def)
  have "map ((!) xs) [m ..< k] ! i = xs ! ([m ..< k] ! i)"
    by (rule nth_map) (use mk in simp)
  also have "[m ..< k] ! i = m + i"
    by (rule nth_upt) (rule mk)
  finally have "map ((!) xs) [m ..< k] ! i = xs ! (m + i)" .
  moreover have "take n (drop m xs) ! i = xs ! (m + i)"
    using i by simp
  ultimately show "take n (drop m xs) ! i = map ((!) xs) [m ..< min (m + n) (length xs)] ! i"
    by (simp add: k_def)
qed

lemma audit_rows:
  "filter_rows None (table_rows audit_tables ''public.users_audit'')
     = map (\<lambda>i. [(''id'', JNum (safe (int i + 1)))]) [0..<120]"
  by (simp add: filter_rows_def table_rows_def audit_tables_def)

text \<open>
  Claim C3: for a page from 1 on, the result of \<open>getData\<close> has \<open>total_rows\<close> equal
  to the number of filtered rows; \<open>total_pages\<close> is the ceiling of \<open>total_rows / 50\<close>
  (the least \<open>k\<close> with \<open>total_rows \<le> 50 * k\<close>) and is 0 exactly when \<open>total_rows\<close> is
  0; the rows returned are those of the filtered sequence at the indices from
  \<open>(page - 1) * 50\<close> up to, not including, \<open>page * 50\<close>; and for a page beyond
  \<open>total_pages\<close> the slice is empty with \<open>row_count = 0\<close>, \<open>total_rows\<close> still being the
  full filtered count.
\<close>

theorem getData_pagination:
  assumes "1 \<le> pg"
  shows "total_rows (getData tables s t pg w)
           = length (filter_rows w (table_rows tables (s @ ''.'' @ t)))
       \<and> int (total_pages (getData tables s t pg w))
           = \<lceil>real (total_rows (getData tables s t pg w)) / 50\<rceil>
       \<and> total_pages (getData tables s t pg w)
           = (LEAST k. total_rows (getData tables s t pg w) \<le> 50 * k)
       \<and> (total_pages (getData tables s t pg w) = 0
            \<longleftrightarrow> total_rows (getData tables s t pg w) = 0)
       \<and> data (getData tables s t pg w)
           = take 50 (drop (nat ((pg - 1) * 50))
               (filter_rows w (table_rows tables (s @ ''.'' @ t))))
       \<and> data (getData tables s t pg w)
           = map ((!) (filter_rows w (table_rows tables (s @ ''.'' @ t))))
               [nat ((pg - 1) * 50) ..<
                  min (nat (pg * 50)) (total_rows (getData tables s t pg w))]
       \<and> qr_row_count (getData tables s t pg w) = length (data (getData tables s t pg w))
       \<and> (int (total_pages (getData tables s t pg w)) < pg \<longrightarrow>
            data (getData tables s t pg w) = []
            \<and> qr_row_count (getData tables s t pg w) = 0)"
proof -
  let ?rows = "filter_rows w (table_rows tables (s @ ''.'' @ t))"
  let ?r = "getData tables s t pg w"
  have tr: "total_rows ?r = length ?rows"
    by (simp add: getData_fields)
  have tp: "total_pages ?r = (length ?rows + 49) div 50"
    by (simp add: getData_fields ceil_pages)
  have ceil: "int (total_pages ?r) = \<lceil>real (total_rows ?r) / 50\<rceil>"
    by (simp add: getData_fields PAGE_SIZE_def)
  have least: "total_pages ?r = (LEAST k. total_rows ?r \<le> 50 * k)"
    by (simp only: tp tr least_pages)
  have zero: "total_pages ?r = 0 \<longleftrightarrow> total_rows ?r = 0"
    unfolding tp tr by linarith
  have start: "0 \<le> (pg - 1) * 50"
    using assms by simp
  have d: "data ?r = take 50 (drop (nat ((pg - 1) * 50)) ?rows)"
    using js_slice_page [OF start, of ?rows 50] by (simp add: getData_fields)
  have e: "nat ((pg - 1) * 50) + 50 = nat (pg * 50)"
    using assms by (simp add: nat_add_distrib algebra_simps)
  have idx: "data ?r = map ((!) ?rows) [nat ((pg - 1) * 50) ..< min (nat (pg * 50)) (total_rows ?r)]"
    unfolding d tr take_drop_indices e ..
  have rc: "qr_row_count ?r = length (data ?r)"
    by (simp add: getData_fields)
  have beyond: "data ?r = [] \<and> qr_row_count ?r = 0" if "int (total_pages ?r) < pg"
  proof -
    from that have "(length ?rows + 49) div 50 \<le> nat (pg - 1)"
      unfolding tp by linarith
    then have "length ?rows \<le> nat (pg - 1) * 50"
      by linarith
    also have "nat (pg - 1) * 50 = nat ((pg - 1) * 50)"
      using assms by (simp add: nat_mult_distrib)
    finally have "data ?r = []"
      unfolding d by simp
    then show ?thesis
      using rc by simp
  qed
  from tr ceil least zero d idx rc beyond show ?thesis
    by blast
qed

theorem getData_pagination_witness:
  "(1::int) \<le> 3
   \<and> total_rows (getData audit_tables ''public'' ''users_audit'' 3 None) = 120
   \<and> total_pages (getData audit_tables ''public'' ''users_audit'' 3 None) = 3
   \<and> qr_row_count (getData audit_tables ''public'' ''users_audit'' 3 None) = 20
   \<and> data (getData audit_tables ''public'' ''users_audit'' 4 None) = []
   \<and> total_rows (getData audit_tables ''public'' ''users_audit'' 4 None) = 120"
proof -
  have three: "(1::int) \<le> 3" and four: "(1::int) \<le> 4"
    by simp_all
  note p3 = getData_pagination [OF three, of audit_tables "''public''" "''users_audit''" None]
  note p4 = getData_pagination [OF four, of audit_tables "''public''" "''users_audit''" None]
  have a: "total_rows (getData audit_tables ''public'' ''users_audit'' 3 None) = 120"
    using p3 by (simp add: audit_rows)
  have a4: "total_rows (getData audit_tables ''public'' ''users_audit'' 4 None) = 120"
    using p4 by (simp add: audit_rows)
  have b: "total_pages (getData audit_tables ''public'' ''users_audit'' 3 None) = 3"
    using p3 unfolding a by linarith
  have b4: "total_pages (getData audit_tables ''public'' ''users_audit'' 4 None) = 3"
    using p4 unfolding a4 by linarith
  have c: "qr_row_count (getData audit_tables ''public'' ''users_audit'' 3 None) = 20"
    using p3 by (simp add: audit_rows)
  have "int (total_pages (getData audit_tables ''public'' ''users_audit'' 4 None)) < 4"
    by (simp add: b4)
  with p4 have d: "data (getData audit_tables ''public'' ''users_audit'' 4 None) = []"
    by blast
  from a b c d a4 show ?thesis by simp
qed

subsection \<open>The row filter\<close>

lemma string_includes_iff:
  "string_includes s p \<longleftrightarrow> (\<exists>before after. s = before @ p @ after)"
proof (induction s)
  case Nil
  then show ?case by auto
next
  case (Cons c cs)
  have "(\<exists>before after. c # cs = before @ p @ after)
          \<longleftrightarrow> prefix p (c # cs) \<or> (\<exists>before after. cs = before @ p @ after)"
  proof
    assume "\<exists>before after. c # cs = before @ p @ after"
    then obtain before after where d: "c # cs = before @ p @ after"
      by blast
    show "prefix p (c # cs) \<or> (\<exists>before after. cs = before @ p @ after)"
    proof (cases before)
      case Nil
      with d show ?thesis by (auto simp: prefix_def)
    next
      case (Cons b bs)
      with d have "cs = bs @ p @ after" by simp
      then show ?thesis by blast
    qed
  next
    assume "prefix p (c # cs) \<or> (\<exists>before after. cs = before @ p @ after)"
    then show "\<exists>before after. c # cs = before @ p @ after"
    proof
      assume "prefix p (c # cs)"
      then obtain after where "c # cs = [] @ p @ after"
        by (auto simp: prefix_def)
      then show ?thesis by blast
    next
      assume "\<exists>before after. cs = before @ p @ after"
      then obtain before after where "cs = before @ p @ after" by blast
      then have "c # cs = (c # before) @ p @ after" by simp
      then show ?thesis by blast
    qed
  qed
  with Cons show ?case by simp
qed

lemma row_matches_iff:
  "row_matches (toLowerCase clause) r \<longleftrightarrow>
     (\<exists>val \<in> set (Object_values r).
        \<exists>before after. toLowerCase (String val) = before @ toLowerCase clause @ after)"
  by (simp add: row_matches_def list_ex_iff string_includes_iff)

lemma subseq_js_slice: "subseq (js_slice xs a b) xs"
proof -
  have "subseq (take n (drop m xs)) xs" for n m
  proof -
    have "sublist (take n (drop m xs)) (drop m xs)"
      by (rule sublist_take)
    moreover have "sublist (drop m xs) xs"
      by (rule sublist_drop)
    ultimately have "sublist (take n (drop m xs)) xs"
      by (rule sublist_order.order_trans)
    then show ?thesis
      by (rule sublist_imp_subseq)
  qed
  then show ?thesis
    by (simp add: js_slice_def Let_def)
qed

text \<open>The decimal numeral of a number is what \<open>decimal\<close> prints, and nothing else.\<close>

lemma decimal_digit_iff: "decimal_digit c \<longleftrightarrow> 48 \<le> (of_char c :: nat) \<and> (of_char c :: nat) \<le> 57"
proof
  assume "decimal_digit c"
  then show "48 \<le> (of_char c :: nat) \<and> (of_char c :: nat) \<le> 57"
    by (auto simp: decimal_digit_def)
next
  assume a: "48 \<le> (of_char c :: nat) \<and> (of_char c :: nat) \<le> 57"
  define k where "k = (of_char c :: nat) - 48"
  have k: "k < 10" "(of_char c :: nat) = 48 + k"
    using a unfolding k_def by linarith+
  then have "c = char_of (48 + k)"
    by (metis char_of_char)
  moreover have "char_of (48 + k) \<in> set ''0123456789''"
  proof -
    from k(1) have "k = 0 \<or> k = 1 \<or> k = 2 \<or> k = 3 \<or> k = 4 \<or> k = 5 \<or> k = 6 \<or> k = 7
                     \<or> k = 8 \<or> k = 9"
      by arith
    then show ?thesis
      by (elim disjE) (simp_all add: char_of_eq_iff)
  qed
  ultimately show "decimal_digit c"
    by (simp add: decimal_digit_def)
qed

lemma digit_props:
  assumes "d < 10"
  shows "decimal_digit (digit d)" "digit_value (digit d) = d" "digit d = CHR ''0'' \<longleftrightarrow> d = 0"
proof -
  have o: "(of_char (digit d) :: nat) = 48 + d"
    using assms by (simp add: digit_def)
  show "decimal_digit (digit d)"
    using assms by (simp add: decimal_digit_iff o)
  show "digit_value (digit d) = d"
    by (simp add: digit_value_def o)
  have "digit d = CHR ''0'' \<longleftrightarrow> (of_char (digit d) :: nat) = of_char CHR ''0''"
    by (simp only: of_char_eq_iff)
  then show "digit d = CHR ''0'' \<longleftrightarrow> d = 0"
    by (simp add: o)
qed

lemma digit_of_value: "decimal_digit c \<Longrightarrow> digit (digit_value c) = c"
  by (simp add: decimal_digit_iff digit_def digit_value_def)

lemma digit_value_less: "decimal_digit c \<Longrightarrow> digit_value c < 10"
  by (auto simp: decimal_digit_iff digit_value_def)

lemma numeral_value_snoc: "numeral_value (t @ [c]) = 10 * numeral_value t + digit_value c"
  by (simp add: numeral_value_def)


lemma foldl_digits_ge: "a \<le> foldl (\<lambda>v c. 10 * v + digit_value c) a t"
proof (induction t arbitrary: a)
  case Nil
  show ?case by simp
next
  case (Cons c cs)
  have "a \<le> 10 * a + digit_value c" by simp
  also have "\<dots> \<le> foldl (\<lambda>v c. 10 * v + digit_value c) (10 * a + digit_value c) cs"
    by (rule Cons.IH)
  finally show ?case by simp
qed

lemma numeral_value_positive:
  assumes "t \<noteq> []" "decimal_digit (hd t)" "hd t \<noteq> CHR ''0''"
  shows "0 < numeral_value t"
proof -
  from assms(1) obtain c cs where t: "t = c # cs"
    by (cases t) auto
  have "(of_char c :: nat) \<noteq> of_char CHR ''0''"
    using assms(3) t by (simp only: of_char_eq_iff list.sel) simp
  then have "0 < digit_value c"
    using assms(2) t by (simp add: decimal_digit_iff digit_value_def)
  also have "digit_value c \<le> numeral_value t"
    using foldl_digits_ge [of "digit_value c" cs] by (simp add: numeral_value_def t)
  finally show ?thesis .
qed

lemma decimal_is_numeral: "decimal_numeral n (decimal n)"
proof (induction n rule: decimal.induct)
  case (1 n)
  show ?case
  proof (cases "n < 10")
    case True
    then have "decimal n = [digit n]"
      by (simp add: decimal.simps)
    with True show ?thesis
      by (simp add: decimal_numeral_def digit_props numeral_value_def)
  next
    case False
    let ?q = "decimal (n div 10)"
    from False have d: "decimal n = ?q @ [digit (n mod 10)]"
      by (subst decimal.simps) simp
    from False "1.IH" have q: "?q \<noteq> []" "list_all decimal_digit ?q"
      "hd ?q = CHR ''0'' \<longrightarrow> ?q = ''0''" "numeral_value ?q = n div 10"
      by (simp_all add: decimal_numeral_def)
    have "hd ?q \<noteq> CHR ''0''"
    proof
      assume "hd ?q = CHR ''0''"
      with q(3) have "?q = ''0''" by simp
      then have "numeral_value ?q = 0"
        by (simp add: numeral_value_def digit_value_def)
      with q(4) False show False by simp
    qed
    then have "hd (decimal n) \<noteq> CHR ''0''"
      using q(1) by (simp add: d)
    moreover have "numeral_value (decimal n) = n"
      by (simp add: d numeral_value_snoc q(4) digit_props)
    moreover have "list_all decimal_digit (decimal n)"
      using q(2) by (simp add: d digit_props)
    ultimately show ?thesis
      by (simp add: decimal_numeral_def d)
  qed
qed

lemma numeral_is_decimal: "decimal_numeral n t \<Longrightarrow> t = decimal n"
proof (induction t arbitrary: n rule: rev_induct)
  case Nil
  then show ?case by (simp add: decimal_numeral_def)
next
  case (snoc c cs)
  from snoc.prems have c: "decimal_digit c" and cs: "list_all decimal_digit cs"
    and lead: "hd (cs @ [c]) = CHR ''0'' \<longrightarrow> cs @ [c] = ''0''"
    and v: "10 * numeral_value cs + digit_value c = n"
    by (simp_all add: decimal_numeral_def numeral_value_snoc)
  have less: "digit_value c < 10"
    using c by (rule digit_value_less)
  show ?case
  proof (cases cs)
    case Nil
    with v have "n = digit_value c"
      by (simp add: numeral_value_def)
    with less c Nil show ?thesis
      by (simp add: decimal.simps digit_of_value)
  next
    case (Cons x xs)
    with lead have h: "hd cs \<noteq> CHR ''0''"
      by auto
    have ne: "cs \<noteq> []"
      using Cons by simp
    have "decimal_digit (hd cs)"
      using cs Cons by simp
    then have pos: "0 < numeral_value cs"
      using h by (intro numeral_value_positive ne)
    have "decimal_numeral (numeral_value cs) cs"
      using ne cs h by (simp add: decimal_numeral_def)
    then have "cs = decimal (numeral_value cs)"
      by (rule snoc.IH)
    moreover have dv: "numeral_value cs = n div 10" "digit_value c = n mod 10"
      using v less by auto
    moreover have "c = digit (n mod 10)"
      using digit_of_value [OF c] dv(2) by simp
    moreover have "\<not> n < 10"
      using v pos by simp
    then have "decimal n = decimal (n div 10) @ [digit (n mod 10)]"
      by (subst decimal.simps) simp
    ultimately show ?thesis
      by simp
  qed
qed

lemma decimal_numeral_iff: "decimal_numeral n t \<longleftrightarrow> t = decimal n"
  using decimal_is_numeral numeral_is_decimal by blast


lemma text_of_iff: "text_of val t \<longleftrightarrow> t = String val"
proof (cases val)
  case (JNum n)
  then show ?thesis
    by (simp add: decimal_numeral_iff Number_toString_def Let_def)
next
  case (JBool b)
  then show ?thesis by simp
qed simp_all

text \<open>The arithmetic of \<open>toLowerCase\<close> agrees with the table of letters.\<close>

lemma case_table: "zip capitals smalls = map (\<lambda>n. (char_of n, char_of (n + 32))) ([65..<91] @ [192..<215] @ [216..<223])"
  by (simp add: capitals_def smalls_def upt_rec char_of_def bit_Suc_0_iff)

lemma map_of_case_table:
  "map_of (map (\<lambda>n. (char_of n, char_of (n + 32))) ns) c
     = (if (of_char c :: nat) \<in> set ns then Some (char_of (of_char c + 32 :: nat)) else None)"
  if "\<forall>n \<in> set ns. n < 256"
  using that
proof (induction ns)
  case Nil
  show ?case by simp
next
  case (Cons n ns)
  then have "n < 2 ^ 8" by simp
  then have "take_bit 8 n = n"
    by (rule take_bit_nat_eq_self)
  then have "char_of n = c \<longleftrightarrow> n = of_char c"
    by (simp add: char_of_eq_iff)
  with Cons show ?case
    by auto
qed

lemma capital_codes:
  "n \<in> set ([65..<91] @ [192..<215] @ [216..<223])
     \<longleftrightarrow> (65 \<le> n \<and> n \<le> 90) \<or> (192 \<le> n \<and> n \<le> 222 \<and> n \<noteq> 215)"
  unfolding set_append set_upt by auto

lemma toLowerCase_char_lower_case: "toLowerCase_char c = lower_case c"
proof -
  have "\<forall>n \<in> set ([65..<91] @ [192..<215] @ [216..<223]). n < (256::nat)"
    unfolding set_append set_upt by auto
  then have "map_of (zip capitals smalls) c
               = (if (of_char c :: nat) \<in> set ([65..<91] @ [192..<215] @ [216..<223])
                  then Some (char_of (of_char c + 32 :: nat)) else None)"
    unfolding case_table by (rule map_of_case_table)
  then show ?thesis
    unfolding lower_case_def toLowerCase_char_def Let_def capital_codes by simp
qed

lemma toLowerCase_lower_case: "toLowerCase t = map lower_case t"
  by (simp add: toLowerCase_def toLowerCase_char_lower_case)

lemma keeps_row_iff: "keeps_row clause = row_matches (toLowerCase clause)"
proof
  fix r
  have "keeps_row clause r \<longleftrightarrow>
          (\<exists>val \<in> set (Object_values r). \<exists>before after.
             toLowerCase (String val) = before @ toLowerCase clause @ after)"
    unfolding keeps_row_def text_of_iff Object_values_def toLowerCase_lower_case
    by (simp add: split_beta)
  then show "keeps_row clause r = row_matches (toLowerCase clause) r"
    by (simp only: row_matches_iff)
qed

lemmas eval_strings =
  toLowerCase_def toLowerCase_char_def char_of_def bit_Suc_0_iff Number_toString_def
  decimal.simps digit_def row_matches_def Object_values_def safe_inverse

text \<open>
  Claim C5: for a non-empty filter text, \<open>getData\<close> keeps a row exactly when one of
  its field values, converted to a string and lower-cased, contains the lower-cased
  filter text as a substring (\<open>keeps_row\<close>): \<open>total_rows\<close> counts these rows and the
  page is cut out of their sequence. The rows returned are in the order of the table (a
  subsequence of it).
\<close>

theorem getData_filter:
  assumes "clause \<noteq> []"
  shows "total_rows (getData tables s t pg (Some clause))
           = length (filter (keeps_row clause) (table_rows tables (s @ ''.'' @ t)))
       \<and> data (getData tables s t pg (Some clause))
           = js_slice (filter (keeps_row clause) (table_rows tables (s @ ''.'' @ t)))
               ((pg - 1) * 50) ((pg - 1) * 50 + 50)
       \<and> subseq (data (getData tables s t pg (Some clause)))
           (table_rows tables (s @ ''.'' @ t))"
proof -
  let ?rows = "table_rows tables (s @ ''.'' @ t)"
  have f: "filter_rows (Some clause) ?rows = filter (keeps_row clause) ?rows"
    using assms by (simp add: filter_rows_def keeps_row_iff)
  have "subseq (js_slice (filter (keeps_row clause) ?rows) ((pg - 1) * 50) ((pg - 1) * 50 + 50))
          (filter (keeps_row clause) ?rows)"
    by (rule subseq_js_slice)
  moreover have "subseq (filter (keeps_row clause) ?rows) ?rows"
    by simp
  ultimately have "subseq (js_slice (filter (keeps_row clause) ?rows)
                             ((pg - 1) * 50) ((pg - 1) * 50 + 50)) ?rows"
    by (rule subseq_order.order_trans)
  then show ?thesis
    unfolding getData_fields f by simp
qed

lemma mixed_row_matches:
  "filter (row_matches (toLowerCase ''-12'')) mixed_rows = [mixed_rows ! 1]"
  "filter (row_matches (toLowerCase ''7500'')) mixed_rows = [mixed_rows ! 2]"
  "filter (row_matches (toLowerCase ''TRU'')) mixed_rows = [mixed_rows ! 0]"
  "filter (row_matches (toLowerCase ''Null'')) mixed_rows = [mixed_rows ! 1]"
  "filter (row_matches (toLowerCase ''fals'')) mixed_rows = [mixed_rows ! 1, mixed_rows ! 2]"
  "filter (row_matches (toLowerCase ''e+'')) mixed_rows = []"
  by (simp_all add: mixed_rows_def eval_strings)

lemma mixed_table_rows: "table_rows mixed_tables (''public'' @ ''.'' @ ''mixed'') = mixed_rows"
  by (simp add: table_rows_def mixed_tables_def)

theorem getData_filter_witness:
  "data (getData mixed_tables ''public'' ''mixed'' 1 (Some ''-12'')) = [mixed_rows ! 1]
   \<and> data (getData mixed_tables ''public'' ''mixed'' 1 (Some ''7500'')) = [mixed_rows ! 2]
   \<and> data (getData mixed_tables ''public'' ''mixed'' 1 (Some ''TRU'')) = [mixed_rows ! 0]
   \<and> data (getData mixed_tables ''public'' ''mixed'' 1 (Some ''Null'')) = [mixed_rows ! 1]
   \<and> data (getData mixed_tables ''public'' ''mixed'' 1 (Some ''fals''))
       = [mixed_rows ! 1, mixed_rows ! 2]
   \<and> total_rows (getData mixed_tables ''public'' ''mixed'' 1 (Some ''fals'')) = 2
   \<and> total_rows (getData mixed_tables ''public'' ''mixed'' 1 (Some ''e+'')) = 0"
proof -
  have a: "data (getData mixed_tables ''public'' ''mixed'' 1 (Some ''-12'')) = [mixed_rows ! 1]"
    using getData_filter [of "''-12''" mixed_tables "''public''" "''mixed''" 1]
    unfolding keeps_row_iff mixed_table_rows mixed_row_matches by (simp add: js_slice_def)
  have b: "data (getData mixed_tables ''public'' ''mixed'' 1 (Some ''7500'')) = [mixed_rows ! 2]"
    using getData_filter [of "''7500''" mixed_tables "''public''" "''mixed''" 1]
    unfolding keeps_row_iff mixed_table_rows mixed_row_matches by (simp add: js_slice_def)
  have c: "data (getData mixed_tables ''public'' ''mixed'' 1 (Some ''TRU'')) = [mixed_rows ! 0]"
    using getData_filter [of "''TRU''" mixed_tables "''public''" "''mixed''" 1]
    unfolding keeps_row_iff mixed_table_rows mixed_row_matches by (simp add: js_slice_def)
  have d: "data (getData mixed_tables ''public'' ''mixed'' 1 (Some ''Null'')) = [mixed_rows ! 1]"
    using getData_filter [of "''Null''" mixed_tables "''public''" "''mixed''" 1]
    unfolding keeps_row_iff mixed_table_rows mixed_row_matches by (simp add: js_slice_def)
  have e: "data (getData mixed_tables ''public'' ''mixed'' 1 (Some ''fals''))
             = [mixed_rows ! 1, mixed_rows ! 2]
           \<and> total_rows (getData mixed_tables ''public'' ''mixed'' 1 (Some ''fals'')) = 2"
    using getData_filter [of "''fals''" mixed_tables "''public''" "''mixed''" 1]
    unfolding keeps_row_iff mixed_table_rows mixed_row_matches by (simp add: js_slice_def)
  have f: "total_rows (getData mixed_tables ''public'' ''mixed'' 1 (Some ''e+'')) = 0"
    using getData_filter [of "''e+''" mixed_tables "''public''" "''mixed''" 1]
    unfolding keeps_row_iff mixed_table_rows mixed_row_matches by simp
  from a b c d e f show ?thesis
    by (intro conjI) simp_all
qed

subsection \<open>The schema catalogue\<close>

lemma set_set_from: "set (set_from seen xs) = set seen \<union> set xs"
  by (induction xs arbitrary: seen) auto

lemma distinct_set_from: "distinct seen \<Longrightarrow> distinct (set_from seen xs)"
  by (induction xs arbitrary: seen) auto

lemma Array_from_Set_props:
  "set (Array_from_Set xs) = set xs" "distinct (Array_from_Set xs)"
  by (simp_all add: Array_from_Set_def set_set_from distinct_set_from)

text \<open>
  Claim C7, as stated, gives a user with a group the sorted distinct schema names of
  the group's records. For the group number 0 the specification's \<open>AccessibleSchemas\<close>
  lists the schema of the group's record and the code returns nothing.
\<close>

theorem getAccessibleSchemas_group_zero_counterexample:
  "AccessibleSchemas zero_group_permissions zero_group_user = [''public'']
   \<and> getAccessibleSchemas zero_group_permissions zero_group_user = []"
  by (simp add: AccessibleSchemas_def getAccessibleSchemas_def zero_group_permissions_def
      zero_group_user_def falsy_number_def)

text \<open>
  Claim C7, amended: \<open>getAccessibleSchemas\<close> returns the empty sequence if the user
  has no \<open>group_id\<close> or the \<open>group_id\<close> 0; otherwise it returns the distinct
  \<open>schema_name\<close> values of the permission records of the user's group. The result has
  no duplicates and is sorted in ascending lexicographic order, for every permission
  set, and but for the group 0 it is the specification's \<open>AccessibleSchemas\<close>.
\<close>

theorem getAccessibleSchemas_sorted_distinct:
  "(group_id user = None \<or> group_id user = Some 0 \<longrightarrow> getAccessibleSchemas perms_store user = [])
   \<and> (\<forall>g. group_id user = Some g \<and> g \<noteq> 0 \<longrightarrow>
         set (getAccessibleSchemas perms_store user)
           = {perm_schema_name p | p. p \<in> set perms_store \<and> perm_group_id p = g})
   \<and> distinct (getAccessibleSchemas perms_store user)
   \<and> sorted (getAccessibleSchemas perms_store user)
   \<and> (group_id user \<noteq> Some 0 \<longrightarrow>
         getAccessibleSchemas perms_store user = AccessibleSchemas perms_store user)"
proof -
  have none: "getAccessibleSchemas perms_store user = []"
    if "group_id user = None \<or> group_id user = Some 0"
    using that by (auto simp: getAccessibleSchemas_def falsy_number_def)
  have some: "getAccessibleSchemas perms_store user
                = sort (Array_from_Set (map perm_schema_name
                          (filter (\<lambda>p. perm_group_id p = g) perms_store)))"
    if "group_id user = Some g" "g \<noteq> 0" for g
    using that by (simp add: getAccessibleSchemas_def falsy_number_def Let_def)
  have sets: "set (getAccessibleSchemas perms_store user)
                = {perm_schema_name p | p. p \<in> set perms_store \<and> perm_group_id p = g}"
    if "group_id user = Some g" "g \<noteq> 0" for g
    unfolding some [OF that] by (auto simp: Array_from_Set_props)
  have dist: "distinct (getAccessibleSchemas perms_store user)"
    by (simp add: getAccessibleSchemas_def Let_def Array_from_Set_props)
  have sorted: "sorted (getAccessibleSchemas perms_store user)"
    by (simp add: getAccessibleSchemas_def Let_def)
  have spec: "getAccessibleSchemas perms_store user = AccessibleSchemas perms_store user"
    if "group_id user \<noteq> Some 0"
  proof (cases "group_id user")
    case None
    then show ?thesis
      by (simp add: none AccessibleSchemas_def)
  next
    case (Some g)
    with that have g: "g \<noteq> 0" by simp
    let ?names = "map perm_schema_name (filter (\<lambda>p. perm_group_id p = g) perms_store)"
    have "sort (Array_from_Set ?names) = sort (remdups ?names)"
      by (rule sorted_distinct_set_unique) (simp_all add: Array_from_Set_props)
    then show ?thesis
      using Some by (simp add: some [OF Some g] AccessibleSchemas_def)
  qed
  from none sets dist sorted spec show ?thesis
    by blast
qed

theorem getAccessibleSchemas_sorted_distinct_witness:
  "getAccessibleSchemas MOCK_PERMISSIONS admin_user = [''hr'', ''public'', ''sales'']
   \<and> getAccessibleSchemas MOCK_PERMISSIONS analyst_user = [''public'', ''sales'']
   \<and> getAccessibleSchemas zero_group_permissions zero_group_user = []"
proof -
  note a = getAccessibleSchemas_sorted_distinct [of admin_user MOCK_PERMISSIONS]
  note b = getAccessibleSchemas_sorted_distinct [of analyst_user MOCK_PERMISSIONS]
  note z = getAccessibleSchemas_sorted_distinct [of zero_group_user zero_group_permissions]
  have "getAccessibleSchemas MOCK_PERMISSIONS admin_user
          = AccessibleSchemas MOCK_PERMISSIONS admin_user"
    using a by (simp add: admin_user_def)
  moreover have "AccessibleSchemas MOCK_PERMISSIONS admin_user = [''hr'', ''public'', ''sales'']"
    by (simp add: AccessibleSchemas_def MOCK_PERMISSIONS_def admin_user_def)
  moreover have "getAccessibleSchemas MOCK_PERMISSIONS analyst_user
                   = AccessibleSchemas MOCK_PERMISSIONS analyst_user"
    using b by (simp add: analyst_user_def)
  moreover have "AccessibleSchemas MOCK_PERMISSIONS analyst_user = [''public'', ''sales'']"
    by (simp add: AccessibleSchemas_def MOCK_PERMISSIONS_def analyst_user_def)
  moreover have "getAccessibleSchemas zero_group_permissions zero_group_user = []"
    using z by (simp add: zero_group_user_def)
  ultimately show ?thesis by simp
qed

text \<open>
  Claim C8 says that \<open>getTables\<close> strips the prefix \<open>schema + "."\<close> from each key
  with that prefix, returning the whole rest. The code returns the second piece of the
  key split at the dots. After \<open>updateData\<close> has stored a table \<open>orders.archive\<close> in
  the schema \<open>sales\<close>, the code lists it as \<open>orders\<close>, a second time, where the
  prefix stripped leaves \<open>orders.archive\<close>.
\<close>

theorem getTables_second_piece:
  "getTables (snd (updateData small_tables ''sales'' ''orders.archive'' [])) ''sales''
     = [Some ''orders'', Some ''orders'']
   \<and> TablesIn (snd (updateData small_tables ''sales'' ''orders.archive'' [])) ''sales''
     = [''orders'', ''orders.archive'']"
  by (simp add: getTables_def TablesIn_def updateData_def small_tables_def Object_keys_def
      startsWith_def js_index_def)

subsection \<open>The filter validator\<close>

lemma char_of_minus_32:
  assumes "97 \<le> (of_char x :: nat)" "(of_char x :: nat) \<le> 122"
  shows "char_of ((of_char x :: nat) - 32) = c \<longleftrightarrow> (of_char x :: nat) - 32 = of_char c"
proof -
  have "take_bit 8 ((of_char x :: nat) - 32) = (of_char x :: nat) - 32"
    using assms by (simp add: take_bit_nat_eq_self_iff)
  then show ?thesis
    by (simp add: char_of_eq_iff)
qed

lemma Canonicalize_capital:
  assumes "capital c"
  shows "Canonicalize x = Canonicalize c \<longleftrightarrow> upper_case x = c"
proof -
  have c: "Canonicalize c = of_char c"
    using assms by (simp add: Canonicalize_def capital_def)
  have eq: "x = c \<longleftrightarrow> (of_char x :: nat) = of_char c"
    by simp
  show ?thesis
  proof (cases "97 \<le> (of_char x :: nat) \<and> (of_char x :: nat) \<le> 122")
    case True
    then show ?thesis
      unfolding c using char_of_minus_32 [of x c]
      by (simp add: Canonicalize_def upper_case_def)
  next
    case False
    then show ?thesis
      unfolding c eq using assms
      by (auto simp: Canonicalize_def upper_case_def capital_def Let_def)
  qed
qed

lemma capital_word_character:
  "capital (upper_case x) \<Longrightarrow> word_character x"
proof (cases "97 \<le> (of_char x :: nat) \<and> (of_char x :: nat) \<le> 122")
  case True
  then show ?thesis by (simp add: word_character_def)
next
  case False
  assume "capital (upper_case x)"
  with False show ?thesis
    by (auto simp: word_character_def upper_case_def capital_def)
qed

lemma map_Canonicalize_capital:
  "list_all capital keyword \<Longrightarrow>
     map Canonicalize mid = map Canonicalize keyword \<longleftrightarrow> map upper_case mid = keyword"
proof (induction keyword arbitrary: mid)
  case Nil
  then show ?case by simp
next
  case (Cons k ks)
  show ?case
  proof (cases mid)
    case Nil
    then show ?thesis by simp
  next
    case (Cons x xs)
    with Cons.prems Cons.IH [of xs] show ?thesis
      by (simp add: Canonicalize_capital)
  qed
qed

lemma match_literals:
  "e \<le> length input \<Longrightarrow>
   match_terms (map Literal keyword @ rest) input e \<longleftrightarrow>
     e + length keyword \<le> length input
     \<and> map Canonicalize (take (length keyword) (drop e input)) = map Canonicalize keyword
     \<and> match_terms rest input (e + length keyword)"
proof (induction keyword arbitrary: e)
  case Nil
  then show ?case by simp
next
  case (Cons k ks)
  show ?case
  proof (cases "e < length input")
    case True
    then have "drop e input = input ! e # drop (Suc e) input"
      by (simp add: Cons_nth_drop_Suc)
    with True Cons.IH [of "Suc e"] show ?thesis
      by auto
  next
    case False
    then show ?thesis by simp
  qed
qed

lemma IsWordChar_before:
  "IsWordChar (before @ rest) (int (length before) - 1)
     \<longleftrightarrow> before \<noteq> [] \<and> word_character (last before)"
proof (cases before rule: rev_cases)
  case Nil
  then show ?thesis by (simp add: IsWordChar_def)
next
  case (snoc bs b)
  then show ?thesis
    by (simp add: IsWordChar_def nth_append)
qed

lemma IsWordChar_at:
  "IsWordChar (before @ rest) (int (length before))
     \<longleftrightarrow> rest \<noteq> [] \<and> word_character (hd rest)"
  by (cases rest) (simp_all add: IsWordChar_def nth_append)

lemma match_keyword_at:
  assumes "list_all capital keyword" "keyword \<noteq> []"
  shows "match_terms (keyword_RegExp keyword) (before @ rest) (length before) \<longleftrightarrow>
           (\<exists>mid after. rest = mid @ after \<and> map upper_case mid = keyword
              \<and> (before = [] \<or> \<not> word_character (last before))
              \<and> (after = [] \<or> \<not> word_character (hd after)))"
proof -
  let ?n = "length keyword"
  let ?mid = "take ?n rest" and ?after = "drop ?n rest"
  have m: "match_terms (keyword_RegExp keyword) (before @ rest) (length before) \<longleftrightarrow>
             IsWordChar (before @ rest) (int (length before) - 1)
               \<noteq> IsWordChar (before @ rest) (int (length before))
             \<and> ?n \<le> length rest
             \<and> map upper_case ?mid = keyword
             \<and> IsWordChar ((before @ ?mid) @ ?after) (int (length (before @ ?mid)) - 1)
               \<noteq> IsWordChar ((before @ ?mid) @ ?after) (int (length (before @ ?mid)))"
    using match_literals [of "length before" "before @ rest" keyword "[WordBoundary]"]
      map_Canonicalize_capital [OF assms(1), of ?mid]
    by (auto simp: keyword_RegExp_def min_def)
  have first: "rest \<noteq> [] \<and> word_character (hd rest)"
    and last: "before @ ?mid \<noteq> [] \<and> word_character (last (before @ ?mid))"
    if "map upper_case ?mid = keyword"
  proof -
    from that assms have ne: "?mid \<noteq> []" by auto
    then have r: "rest \<noteq> []" by auto
    have "list_all capital (map upper_case ?mid)"
      using that assms(1) by simp
    then have w: "list_all word_character ?mid"
      by (auto simp: list_all_iff intro: capital_word_character)
    have "hd rest = hd ?mid"
      using ne by (cases rest) auto
    moreover have "hd ?mid \<in> set ?mid"
      using ne by (rule hd_in_set)
    moreover have "last ?mid \<in> set ?mid"
      using ne by (rule last_in_set)
    ultimately show "rest \<noteq> [] \<and> word_character (hd rest)"
      and "before @ ?mid \<noteq> [] \<and> word_character (last (before @ ?mid))"
      using w r ne by (auto simp: list_all_iff)
  qed
  show ?thesis
  proof
    assume "match_terms (keyword_RegExp keyword) (before @ rest) (length before)"
    with m have b1: "IsWordChar (before @ rest) (int (length before) - 1)
               \<noteq> IsWordChar (before @ rest) (int (length before))"
      and u: "map upper_case ?mid = keyword"
      and b2: "IsWordChar ((before @ ?mid) @ ?after) (int (length (before @ ?mid)) - 1)
               \<noteq> IsWordChar ((before @ ?mid) @ ?after) (int (length (before @ ?mid)))"
      by blast+
    from b1 first [OF u] have "before = [] \<or> \<not> word_character (last before)"
      unfolding IsWordChar_before IsWordChar_at by blast
    moreover from b2 last [OF u] have "?after = [] \<or> \<not> word_character (hd ?after)"
      unfolding IsWordChar_before IsWordChar_at by blast
    moreover have "rest = ?mid @ ?after" by simp
    ultimately show "\<exists>mid after. rest = mid @ after \<and> map upper_case mid = keyword
              \<and> (before = [] \<or> \<not> word_character (last before))
              \<and> (after = [] \<or> \<not> word_character (hd after))"
      using u by blast
  next
    assume "\<exists>mid after. rest = mid @ after \<and> map upper_case mid = keyword
              \<and> (before = [] \<or> \<not> word_character (last before))
              \<and> (after = [] \<or> \<not> word_character (hd after))"
    then obtain mid after where r: "rest = mid @ after" and u: "map upper_case mid = keyword"
      and b: "before = [] \<or> \<not> word_character (last before)"
      and a: "after = [] \<or> \<not> word_character (hd after)"
      by blast
    from u have len: "length mid = ?n" by auto
    with r have mid: "?mid = mid" and after: "?after = after" by simp_all
    have u': "map upper_case ?mid = keyword"
      using u mid by simp
    have "IsWordChar (before @ rest) (int (length before) - 1)
               \<noteq> IsWordChar (before @ rest) (int (length before))"
      using b first [OF u'] unfolding IsWordChar_before IsWordChar_at by blast
    moreover have "IsWordChar ((before @ ?mid) @ ?after) (int (length (before @ ?mid)) - 1)
               \<noteq> IsWordChar ((before @ ?mid) @ ?after) (int (length (before @ ?mid)))"
      using a last [OF u'] mid after len assms(2)
      unfolding IsWordChar_before IsWordChar_at by auto
    moreover have "?n \<le> length rest"
      using r len by simp
    ultimately show "match_terms (keyword_RegExp keyword) (before @ rest) (length before)"
      using m u' by blast
  qed
qed


lemma RegExp_test_whole_word:
  assumes "list_all capital keyword" "keyword \<noteq> []"
  shows "RegExp_test (keyword_RegExp keyword) s \<longleftrightarrow> whole_word keyword s"
proof
  assume "RegExp_test (keyword_RegExp keyword) s"
  then obtain e where "e \<in> set [0..<Suc (length s)]"
    and m: "match_terms (keyword_RegExp keyword) s e"
    unfolding RegExp_test_def list_ex_iff by blast
  then have e: "e \<le> length s"
    by (simp del: upt_Suc)
  have "match_terms (keyword_RegExp keyword) (take e s @ drop e s) (length (take e s))"
    using e m by (simp add: min_def)
  then obtain mid after where "drop e s = mid @ after" "map upper_case mid = keyword"
    "take e s = [] \<or> \<not> word_character (last (take e s))"
    "after = [] \<or> \<not> word_character (hd after)"
    unfolding match_keyword_at [OF assms] by blast
  moreover from this have "s = take e s @ mid @ after"
    by (metis append_take_drop_id)
  ultimately show "whole_word keyword s"
    unfolding whole_word_def by blast
next
  assume "whole_word keyword s"
  then obtain before mid after where s: "s = before @ mid @ after"
    and rest: "map upper_case mid = keyword"
      "before = [] \<or> \<not> word_character (last before)"
      "after = [] \<or> \<not> word_character (hd after)"
    unfolding whole_word_def by blast
  then have "match_terms (keyword_RegExp keyword) (before @ mid @ after) (length before)"
    unfolding match_keyword_at [OF assms] by blast
  moreover have "length before \<in> set [0..<Suc (length s)]"
    using s by simp
  ultimately show "RegExp_test (keyword_RegExp keyword) s"
    unfolding RegExp_test_def list_ex_iff s by blast
qed

lemma keywords_capital:
  "\<forall>keyword \<in> set FORBIDDEN_SQL_KEYWORDS. list_all capital keyword \<and> keyword \<noteq> []"
  by (simp add: FORBIDDEN_SQL_KEYWORDS_def capital_def)

lemma isValid_validateWhereClause:
  "isValid (validateWhereClause clause) \<longleftrightarrow>
     clause = []
     \<or> (find (\<lambda>pattern. string_includes clause pattern) SQL_COMMENT_PATTERNS = None
        \<and> find (\<lambda>keyword. RegExp_test (keyword_RegExp keyword) clause) FORBIDDEN_SQL_KEYWORDS = None)"
  by (simp add: validateWhereClause_def split: option.splits)

lemma keyword_test:
  "keyword \<in> set FORBIDDEN_SQL_KEYWORDS \<Longrightarrow>
     RegExp_test (keyword_RegExp keyword) s \<longleftrightarrow> whole_word keyword s"
  using keywords_capital by (intro RegExp_test_whole_word) auto

lemma no_comment_pattern:
  "find (\<lambda>pattern. string_includes s pattern) SQL_COMMENT_PATTERNS = None
     \<longleftrightarrow> \<not> (\<exists>pattern \<in> {'';'', ''--'', ''/*''}. \<exists>before after. s = before @ pattern @ after)"
  by (auto simp: find_None_iff string_includes_iff SQL_COMMENT_PATTERNS_def)

lemma no_forbidden_keyword:
  "find (\<lambda>keyword. RegExp_test (keyword_RegExp keyword) s) FORBIDDEN_SQL_KEYWORDS = None
     \<longleftrightarrow> \<not> (\<exists>keyword \<in> {''DELETE'', ''UPDATE'', ''INSERT'', ''DROP'', ''ALTER'', ''EXEC'',
                            ''EXECUTE'', ''CREATE'', ''TRUNCATE''}.
               whole_word keyword s)"
proof -
  have "find (\<lambda>keyword. RegExp_test (keyword_RegExp keyword) s) FORBIDDEN_SQL_KEYWORDS = None
      \<longleftrightarrow> \<not> (\<exists>keyword \<in> set FORBIDDEN_SQL_KEYWORDS. whole_word keyword s)"
    by (auto simp: find_None_iff keyword_test)
  also have "set FORBIDDEN_SQL_KEYWORDS = {''DELETE'', ''UPDATE'', ''INSERT'', ''DROP'', ''ALTER'', ''EXEC'',
                            ''EXECUTE'', ''CREATE'', ''TRUNCATE''}"
    unfolding FORBIDDEN_SQL_KEYWORDS_def by (simp only: list.set)
  finally show ?thesis .
qed

lemma dropdown_valid: "isValid (validateWhereClause ''dropdown'')"
  unfolding isValid_validateWhereClause
  by (simp add: SQL_COMMENT_PATTERNS_def FORBIDDEN_SQL_KEYWORDS_def RegExp_test_def
      keyword_RegExp_def IsWordChar_def word_character_def Canonicalize_def)

text \<open>
  Claim C4: \<open>validateWhereClause\<close> rejects a text exactly when the text is not empty
  and either contains one of \<open>;\<close>, \<open>--\<close>, \<open>/*\<close> as a substring or contains one of
  DELETE, UPDATE, INSERT, DROP, ALTER, EXEC, EXECUTE, CREATE, TRUNCATE as a whole word,
  ignoring case. In particular the empty text is accepted, DROP in any case is rejected
  and \<open>dropdown\<close> is accepted.
\<close>

theorem validateWhereClause_rejects:
  "(\<not> isValid (validateWhereClause clause) \<longleftrightarrow>
      clause \<noteq> []
      \<and> ((\<exists>pattern \<in> {'';'', ''--'', ''/*''}. \<exists>before after. clause = before @ pattern @ after)
         \<or> (\<exists>keyword \<in> {''DELETE'', ''UPDATE'', ''INSERT'', ''DROP'', ''ALTER'', ''EXEC'',
                            ''EXECUTE'', ''CREATE'', ''TRUNCATE''}.
               whole_word keyword clause)))
   \<and> isValid (validateWhereClause [])
   \<and> (map upper_case clause = ''DROP'' \<longrightarrow> \<not> isValid (validateWhereClause clause))
   \<and> isValid (validateWhereClause ''dropdown'')"
proof (intro conjI impI)
  show main: "\<not> isValid (validateWhereClause s) \<longleftrightarrow>
      s \<noteq> []
      \<and> ((\<exists>pattern \<in> {'';'', ''--'', ''/*''}. \<exists>before after. s = before @ pattern @ after)
         \<or> (\<exists>keyword \<in> {''DELETE'', ''UPDATE'', ''INSERT'', ''DROP'', ''ALTER'', ''EXEC'',
                            ''EXECUTE'', ''CREATE'', ''TRUNCATE''}.
               whole_word keyword s))" for s
    by (simp only: isValid_validateWhereClause no_comment_pattern no_forbidden_keyword
        de_Morgan_conj de_Morgan_disj not_not)
  show "isValid (validateWhereClause [])"
    by (simp add: validateWhereClause_def)
  show "\<not> isValid (validateWhereClause clause)" if "map upper_case clause = ''DROP''"
  proof -
    have "clause = [] @ clause @ [] \<and> map upper_case clause = ''DROP''
            \<and> ([] = [] \<or> \<not> word_character (last [])) \<and> ([] = [] \<or> \<not> word_character (hd []))"
      using that by simp
    then have w: "whole_word ''DROP'' clause"
      unfolding whole_word_def by (intro exI)
    have "''DROP'' \<in> {''DELETE'', ''UPDATE'', ''INSERT'', ''DROP'', ''ALTER'', ''EXEC'',
                        ''EXECUTE'', ''CREATE'', ''TRUNCATE''}"
      by simp
    then have ex: "\<exists>keyword \<in> {''DELETE'', ''UPDATE'', ''INSERT'', ''DROP'', ''ALTER'', ''EXEC'',
                            ''EXECUTE'', ''CREATE'', ''TRUNCATE''}. whole_word keyword clause"
      using w by (rule bexI [rotated])
    from that have ne: "clause \<noteq> []" by auto
    show ?thesis
      unfolding main using ne ex by (intro conjI disjI2)
  qed
  show "isValid (validateWhereClause ''dropdown'')"
    by (rule dropdown_valid)
qed

theorem validateWhereClause_rejects_witness:
  "\<not> isValid (validateWhereClause ''DrOp'')
   \<and> \<not> isValid (validateWhereClause ''a drop b'')
   \<and> \<not> isValid (validateWhereClause ''id = 1 -- x'')
   \<and> isValid (validateWhereClause ''dropdown'')"
proof -
  note drop = validateWhereClause_rejects [of "''DrOp''"]
  note word = validateWhereClause_rejects [of "''a drop b''"]
  note comment = validateWhereClause_rejects [of "''id = 1 -- x''"]
  have "map upper_case ''DrOp'' = ''DROP''"
    by (simp add: upper_case_def char_of_eq_iff)
  moreover from drop
  have "map upper_case ''DrOp'' = ''DROP'' \<longrightarrow> \<not> isValid (validateWhereClause ''DrOp'')"
    by (elim conjE)
  ultimately have a: "\<not> isValid (validateWhereClause ''DrOp'')"
    by simp
  have "''a drop b'' = ''a '' @ ''drop'' @ '' b'' \<and> map upper_case ''drop'' = ''DROP''
          \<and> (''a '' = [] \<or> \<not> word_character (last ''a ''))
          \<and> ('' b'' = [] \<or> \<not> word_character (hd '' b''))"
    by (simp add: upper_case_def word_character_def char_of_eq_iff)
  then have "whole_word ''DROP'' ''a drop b''"
    unfolding whole_word_def by (intro exI)
  moreover have "''DROP'' \<in> {''DELETE'', ''UPDATE'', ''INSERT'', ''DROP'', ''ALTER'', ''EXEC'',
                        ''EXECUTE'', ''CREATE'', ''TRUNCATE''}"
    by simp
  ultimately have "\<exists>keyword \<in> {''DELETE'', ''UPDATE'', ''INSERT'', ''DROP'', ''ALTER'', ''EXEC'',
                        ''EXECUTE'', ''CREATE'', ''TRUNCATE''}. whole_word keyword ''a drop b''"
    by (rule bexI)
  then have b: "\<not> isValid (validateWhereClause ''a drop b'')"
    unfolding word [THEN conjunct1] by simp
  have "''id = 1 -- x'' = ''id = 1 '' @ ''--'' @ '' x''"
    by simp
  then have "\<exists>before after. ''id = 1 -- x'' = before @ ''--'' @ after"
    by (intro exI)
  moreover have "''--'' \<in> {'';'', ''--'', ''/*''}"
    by simp
  ultimately have "\<exists>pattern \<in> {'';'', ''--'', ''/*''}. \<exists>before after.
                     ''id = 1 -- x'' = before @ pattern @ after"
    by (rule bexI)
  then have c: "\<not> isValid (validateWhereClause ''id = 1 -- x'')"
    unfolding comment [THEN conjunct1] by simp
  from drop have d: "isValid (validateWhereClause ''dropdown'')"
    by (elim conjE)
  from a b c d show ?thesis
    by (intro conjI)
qed

text \<open>
  The underscore is a word character: \<open>drop_table\<close> holds no whole word DROP, and a
  dot ends a word.
\<close>

lemma validateWhereClause_underscore_example:
  "isValid (validateWhereClause ''drop_table x'')
   \<and> \<not> isValid (validateWhereClause ''x.DROP'')"
  unfolding isValid_validateWhereClause
  by (simp add: SQL_COMMENT_PATTERNS_def FORBIDDEN_SQL_KEYWORDS_def RegExp_test_def
      keyword_RegExp_def IsWordChar_def word_character_def Canonicalize_def)

end
